theory Spec2Isabelle
  imports Complex_Main "HOL-Library.AList"
begin

section \<open>Token records and token states (auth/models.py)\<close>

text \<open>
  Times are Python floats holding POSIX timestamps (\<open>time.time()\<close>); they are modelled
  as reals, so that comparison, \<open>max\<close> and addition are the exact ones. Counters are
  Python's unbounded integers. Every operation that reads the clock takes the value
  read as the argument \<open>now\<close>.
\<close>

record auth_record =
  name :: string
  path :: string
  token :: string
  email :: "string option"
  account_id :: "string option"

record auth_state =
  state_record :: auth_record
  cooldown_until :: real
  blacklist_until :: real
  blacklist_reason :: "string option"
  probation_successes :: int
  probation_target :: int
  next_probe_after :: real
  used :: int
  errors :: int
  rate_limit_strikes :: int
  hard_failures :: int

text \<open>The dataclass constructor \<open>AuthState(record=record)\<close> with its field defaults.\<close>

definition AuthState :: "auth_record \<Rightarrow> auth_state" where
  "AuthState r =
     \<lparr>state_record = r, cooldown_until = 0, blacklist_until = 0, blacklist_reason = None,
      probation_successes = 2, probation_target = 2, next_probe_after = 0,
      used = 0, errors = 0, rate_limit_strikes = 0, hard_failures = 0\<rparr>"

definition available :: "auth_state \<Rightarrow> real \<Rightarrow> bool" where
  "available s now =
     (if now < blacklist_until s then False
      else if now < cooldown_until s then False
      else if probation_successes s < probation_target s \<and> now < next_probe_after s then False
      else True)"

definition status :: "auth_state \<Rightarrow> real \<Rightarrow> string" where
  "status s now =
     (if now < blacklist_until s then ''BLACKLIST''
      else if now < cooldown_until s then ''COOLDOWN''
      else if probation_successes s < probation_target s then
        (if now < next_probe_after s then ''BLACKLIST'' else ''PROBATION'')
      else ''OK'')"

section \<open>The rotation pool (auth/rotation.py)\<close>

definition DEFAULT_COOLDOWN_SECONDS :: int where
  "DEFAULT_COOLDOWN_SECONDS = 30"

definition DEFAULT_TRANSIENT_COOLDOWN_SECONDS :: int where
  "DEFAULT_TRANSIENT_COOLDOWN_SECONDS = 8"

definition DEFAULT_BLACKLIST_SECONDS :: int where
  "DEFAULT_BLACKLIST_SECONDS = 15 * 60"

definition MAX_COOLDOWN_SECONDS :: int where
  "MAX_COOLDOWN_SECONDS = 15 * 60"

definition MAX_BLACKLIST_SECONDS :: int where
  "MAX_BLACKLIST_SECONDS = 6 * 60 * 60"

definition PROBATION_SUCCESS_TARGET :: int where
  "PROBATION_SUCCESS_TARGET = 2"

record pool =
  states :: "auth_state list"
  index :: int

definition RoundRobinAuthPool :: pool where
  "RoundRobinAuthPool = \<lparr>states = [], index = 0\<rparr>"

text \<open>
  \<open>load\<close> first builds the dictionary \<open>previous\<close> by a comprehension over the old
  states: a later state with the same name replaces an earlier one.
\<close>

definition previous_map :: "auth_state list \<Rightarrow> (string \<rightharpoonup> auth_state)" where
  "previous_map sts = fold (\<lambda>s m. m(name (state_record s) \<mapsto> s)) sts Map.empty"

text \<open>The body of the loop over the new records.\<close>

definition load_state :: "(string \<rightharpoonup> auth_state) \<Rightarrow> auth_record \<Rightarrow> auth_state" where
  "load_state previous r =
     (let state = AuthState r in
      case previous (name r) of
        None \<Rightarrow> state
      | Some prev \<Rightarrow>
          (let same_token = (token (state_record prev) = token r);
               state = state\<lparr>used := used prev, errors := errors prev\<rparr>
           in if same_token then
                state\<lparr>cooldown_until := cooldown_until prev,
                      blacklist_until := blacklist_until prev,
                      blacklist_reason := blacklist_reason prev,
                      probation_successes := probation_successes prev,
                      probation_target := probation_target prev,
                      next_probe_after := next_probe_after prev,
                      rate_limit_strikes := rate_limit_strikes prev,
                      hard_failures := hard_failures prev\<rparr>
              else
                state\<lparr>probation_successes := PROBATION_SUCCESS_TARGET,
                      probation_target := PROBATION_SUCCESS_TARGET\<rparr>))"

definition load :: "pool \<Rightarrow> auth_record list \<Rightarrow> pool" where
  "load p records =
     (let previous = previous_map (states p);
          next_states = map (load_state previous) records
      in \<lparr>states = next_states,
          index = (if next_states \<noteq> [] then index p mod int (length next_states) else 0)\<rparr>)"

definition mark_success :: "auth_state \<Rightarrow> real \<Rightarrow> auth_state" where
  "mark_success state now =
     (let s1 = state\<lparr>cooldown_until := 0, rate_limit_strikes := 0\<rparr> in
      if probation_successes s1 < probation_target s1 then
        (let s2 = s1\<lparr>probation_successes := probation_successes s1 + 1\<rparr> in
         if probation_successes s2 \<ge> probation_target s2
         then s2\<lparr>blacklist_until := 0, blacklist_reason := None, next_probe_after := 0\<rparr>
         else s2)
      else if blacklist_until s1 \<le> now then s1\<lparr>blacklist_reason := None\<rparr>
      else s1)"

definition rate_limit_cooldown_seconds :: "int \<Rightarrow> int" where
  "rate_limit_cooldown_seconds strikes =
     (let power = min (max (strikes - 1) 0) 6
      in min MAX_COOLDOWN_SECONDS (DEFAULT_COOLDOWN_SECONDS * 2 ^ nat power))"

text \<open>Lines 177 and 178 of \<open>_mark_blacklist\<close>: the ttl from the incremented counter.\<close>

definition blacklist_ttl :: "int \<Rightarrow> int" where
  "blacklist_ttl hard =
     (let ttl_power = min (max (hard - 1) 0) 4
      in min MAX_BLACKLIST_SECONDS (DEFAULT_BLACKLIST_SECONDS * 2 ^ nat ttl_power))"

definition mark_blacklist :: "auth_state \<Rightarrow> real \<Rightarrow> string \<Rightarrow> auth_state" where
  "mark_blacklist state now reason =
     (let s1 = state\<lparr>errors := errors state + 1, hard_failures := hard_failures state + 1\<rparr>;
          ttl = blacklist_ttl (hard_failures s1);
          s2 = s1\<lparr>blacklist_until := max (blacklist_until s1) (now + of_int (max 1 ttl))\<rparr>;
          s3 = s2\<lparr>blacklist_reason := Some reason,
                  probation_target := PROBATION_SUCCESS_TARGET,
                  probation_successes := 0,
                  next_probe_after := blacklist_until s2\<rparr>
      in s3\<lparr>cooldown_until := max (cooldown_until s3) (blacklist_until s3)\<rparr>)"

definition mark_rate_limited :: "auth_state \<Rightarrow> real \<Rightarrow> int option \<Rightarrow> auth_state" where
  "mark_rate_limited state now seconds_override =
     (let s1 = state\<lparr>errors := errors state + 1,
                     rate_limit_strikes := rate_limit_strikes state + 1\<rparr>;
          cooldown = (case seconds_override of
                        Some v \<Rightarrow> v
                      | None \<Rightarrow> rate_limit_cooldown_seconds (rate_limit_strikes s1));
          s2 = s1\<lparr>cooldown_until := max (cooldown_until s1) (now + of_int (max 1 cooldown))\<rparr>
      in if rate_limit_strikes s2 \<ge> 5
         then mark_blacklist s2 now ''rate_limited_persistent''
         else s2)"

definition mark_transient_failure :: "auth_state \<Rightarrow> real \<Rightarrow> auth_state" where
  "mark_transient_failure state now =
     (let s1 = state\<lparr>errors := errors state + 1\<rparr>
      in s1\<lparr>cooldown_until :=
              max (cooldown_until s1) (now + of_int DEFAULT_TRANSIENT_COOLDOWN_SECONDS)\<rparr>)"

text \<open>
  The classification inside the loop of \<open>mark_result\<close>, for the state whose name
  matched. \<open>error_code or \<dots>\<close> takes the default reason for \<open>None\<close> and for the
  empty string.
\<close>

definition classify_result ::
  "auth_state \<Rightarrow> int \<Rightarrow> string option \<Rightarrow> int option \<Rightarrow> real \<Rightarrow> auth_state" where
  "classify_result state st error_code cooldown_seconds now =
     (if 200 \<le> st \<and> st < 400 then mark_success state now
      else if st = 401 \<or> st = 403 then
        (let dflt = (if st = 401 then ''token_invalid'' else ''forbidden'');
             reason = (case error_code of
                         None \<Rightarrow> dflt
                       | Some e \<Rightarrow> if e = [] then dflt else e)
         in mark_blacklist state now reason)
      else if st = 429 then
        mark_rate_limited state now
          (case cooldown_seconds of None \<Rightarrow> None | Some c \<Rightarrow> Some (max 1 c))
      else if st \<ge> 500 \<or> st = 408 \<or> st = 409 \<or> st = 425 then
        mark_transient_failure state now
      else mark_transient_failure state now)"

text \<open>
  The loop \<open>for state in self._states\<close>: states with another name are skipped
  (\<open>continue\<close>), the first state with the name is updated and the loop is left
  (\<open>return\<close>).
\<close>

fun mark_states ::
  "auth_state list \<Rightarrow> string \<Rightarrow> int \<Rightarrow> string option \<Rightarrow> int option \<Rightarrow> real \<Rightarrow> auth_state list" where
  "mark_states [] auth_name st error_code cooldown_seconds now = []"
| "mark_states (state # rest) auth_name st error_code cooldown_seconds now =
     (if name (state_record state) \<noteq> auth_name
      then state # mark_states rest auth_name st error_code cooldown_seconds now
      else classify_result state st error_code cooldown_seconds now # rest)"

definition mark_result ::
  "pool \<Rightarrow> string \<Rightarrow> int \<Rightarrow> string option \<Rightarrow> int option \<Rightarrow> real \<Rightarrow> pool" where
  "mark_result p auth_name st error_code cooldown_seconds now =
     p\<lparr>states := mark_states (states p) auth_name st error_code cooldown_seconds now\<rparr>"

definition mark_cooldown :: "pool \<Rightarrow> string \<Rightarrow> int \<Rightarrow> real \<Rightarrow> pool" where
  "mark_cooldown p auth_name seconds now =
     mark_result p auth_name 429 None (Some seconds) now"

text \<open>A run of \<open>mark_result\<close> calls for one name, each with its status and clock value.\<close>

fun mark_results :: "pool \<Rightarrow> string \<Rightarrow> (int \<times> real) list \<Rightarrow> pool" where
  "mark_results p auth_name [] = p"
| "mark_results p auth_name ((st, now) # calls) =
     mark_results (mark_result p auth_name st None None now) auth_name calls"

text \<open>The state that \<open>mark_result\<close> acts on: the first one with the name.\<close>

definition state_named :: "pool \<Rightarrow> string \<Rightarrow> auth_state option" where
  "state_named p auth_name = find (\<lambda>s. name (state_record s) = auth_name) (states p)"

section \<open>Path rewriting (proxy/rules.py)\<close>

text \<open>
  Strings are lists of 8-bit characters. \<open>str.lower\<close> and \<open>str.rstrip\<close> are modelled
  on them; \<open>lower\<close> maps the letters A to Z (codes 65 to 90) to a to z, which sets
  the bit of value 32, and leaves every other character alone.
\<close>

definition lower_char :: "char \<Rightarrow> char" where
  "lower_char c =
     (if 65 \<le> (of_char c :: nat) \<and> (of_char c :: nat) \<le> 90
      then (case c of Char b0 b1 b2 b3 b4 b5 b6 b7 \<Rightarrow> Char b0 b1 b2 b3 b4 True b6 b7)
      else c)"

definition lower :: "string \<Rightarrow> string" where
  "lower s = map lower_char s"

definition rstrip :: "string \<Rightarrow> char \<Rightarrow> string" where
  "rstrip s c = rev (dropWhile (\<lambda>x. x = c) (rev s))"

definition startswith :: "string \<Rightarrow> string \<Rightarrow> bool" where
  "startswith s pre = (take (length pre) s = pre)"

definition CHATGPT_HOSTS :: "string set" where
  "CHATGPT_HOSTS = {''chatgpt.com'', ''chat.openai.com''}"

definition PATH_REWRITE_PATTERNS :: "(string \<times> string) list" where
  "PATH_REWRITE_PATTERNS =
     [(''/v1/responses/compact'', ''/codex/responses/compact''),
      (''/responses/compact'', ''/codex/responses/compact''),
      (''/v1/responses'', ''/codex/responses''),
      (''/responses'', ''/codex/responses'')]"

text \<open>The loop over the table: the first prefix that matches decides.\<close>

fun rewrite_first :: "(string \<times> string) list \<Rightarrow> string \<Rightarrow> string" where
  "rewrite_first [] req_path = req_path"
| "rewrite_first ((old_prefix, new_prefix) # rest) req_path =
     (if startswith req_path old_prefix
      then new_prefix @ drop (length old_prefix) req_path
      else rewrite_first rest req_path)"

definition rewrite_request_path :: "string \<Rightarrow> string option \<Rightarrow> string \<Rightarrow> string" where
  "rewrite_request_path req_path upstream_host upstream_base_path =
     (let host = lower (case upstream_host of None \<Rightarrow> [] | Some h \<Rightarrow> h) in
      if host \<notin> CHATGPT_HOSTS then req_path
      else if rstrip upstream_base_path CHR ''/'' \<noteq> ''/backend-api'' then req_path
      else rewrite_first PATH_REWRITE_PATTERNS req_path)"

section \<open>The trace ring buffer (observability/trace_store.py)\<close>

text \<open>
  Event dictionaries and lists are Python objects that the caller and the store may
  share, so they live in an explicit heap: an object is its index in the heap, and a
  new object is put at the end. A dictionary keeps its keys in insertion order;
  \<open>d[k] = v\<close> replaces the value of a key in place or adds the key at the end. A
  list object (the deque of the store, the result of \<open>list\<close>) holds the addresses of
  dictionaries.
\<close>

datatype pyval = PyNone | PyInt int | PyFloat real | PyStr string

type_synonym pydict = "(string \<times> pyval) list"

record pyheap =
  dict_objs :: "pydict list"
  list_objs :: "nat list list"

record trace_store =
  max_size :: int
  items :: nat
  seq :: int

text \<open>\<open>TraceStore(max_size)\<close>: the deque is a new, empty list object.\<close>

definition TraceStore :: "int \<Rightarrow> pyheap \<Rightarrow> trace_store \<times> pyheap" where
  "TraceStore m h =
     (\<lparr>max_size = max 1 m, items = length (list_objs h), seq = 0\<rparr>,
      h\<lparr>list_objs := list_objs h @ [[]]\<rparr>)"

text \<open>\<open>deque.append\<close> on a deque with \<open>maxlen\<close>: the oldest item leaves a full deque.\<close>

definition deque_append :: "int \<Rightarrow> nat list \<Rightarrow> nat \<Rightarrow> nat list" where
  "deque_append maxlen xs x =
     (let ys = xs @ [x] in if int (length ys) > maxlen then tl ys else ys)"

text \<open>
  \<open>add(event)\<close>, where \<open>event\<close> is the address of the caller's dictionary. The result
  is the address of the payload, the store and the heap. An address that holds no
  object cannot be passed in Python; the model answers \<open>None\<close> there.
\<close>

definition add :: "trace_store \<Rightarrow> nat \<Rightarrow> pyheap \<Rightarrow> (nat \<times> trace_store \<times> pyheap) option" where
  "add st event h =
     (if event < length (dict_objs h) \<and> items st < length (list_objs h) then
        (let st1 = st\<lparr>seq := seq st + 1\<rparr>;
             payload = length (dict_objs h);
             h1 = h\<lparr>dict_objs := dict_objs h @ [dict_objs h ! event]\<rparr>;
             h2 = h1\<lparr>dict_objs := (dict_objs h1)
                    [payload := AList.update ''id'' (PyInt (seq st1)) (dict_objs h1 ! payload)]\<rparr>;
             h3 = h2\<lparr>list_objs := (list_objs h2)
                    [items st1 := deque_append (max_size st1) (list_objs h2 ! items st1) payload]\<rparr>
         in Some (payload, st1, h3))
      else None)"

text \<open>
  \<open>list(limit)\<close>: \<open>list(self._items)\<close> is a new list object, and so is the slice
  \<open>items[-limit:]\<close>.
\<close>

definition list_events :: "trace_store \<Rightarrow> int \<Rightarrow> pyheap \<Rightarrow> (nat \<times> pyheap) option" where
  "list_events st limit h =
     (if items st < length (list_objs h) then
        (let copy = length (list_objs h);
             its = list_objs h ! items st;
             h1 = h\<lparr>list_objs := list_objs h @ [its]\<rparr>
         in if limit > 0 then
              (let slice = length (list_objs h1);
                   h2 = h1\<lparr>list_objs := list_objs h1 @ [drop (length its - nat limit) its]\<rparr>
               in Some (slice, h2))
            else Some (copy, h1))
      else None)"

text \<open>A run of \<open>add\<close> calls; the result lists the payloads in call order.\<close>

fun add_all :: "trace_store \<Rightarrow> nat list \<Rightarrow> pyheap \<Rightarrow> (nat list \<times> trace_store \<times> pyheap) option" where
  "add_all st [] h = Some ([], st, h)"
| "add_all st (event # events) h =
     (case add st event h of
        None \<Rightarrow> None
      | Some (payload, st1, h1) \<Rightarrow>
          (case add_all st1 events h1 of
             None \<Rightarrow> None
           | Some (payloads, st2, h2) \<Rightarrow> Some (payload # payloads, st2, h2)))"

text \<open>Reading a key of a dictionary object, and the contents of a list object.\<close>

definition dict_get :: "pyheap \<Rightarrow> nat \<Rightarrow> string \<Rightarrow> pyval option" where
  "dict_get h a k = map_of (dict_objs h ! a) k"

definition buffer :: "trace_store \<Rightarrow> pyheap \<Rightarrow> nat list" where
  "buffer st h = list_objs h ! items st"

text \<open>Any change of a list object: its contents are replaced.\<close>

definition list_assign :: "pyheap \<Rightarrow> nat \<Rightarrow> nat list \<Rightarrow> pyheap" where
  "list_assign h a xs = h\<lparr>list_objs := (list_objs h)[a := xs]\<rparr>"

section \<open>Example inputs\<close>

text \<open>The records of the repository's tests, and pools built from them by the pool's own operations.\<close>

definition rec_a :: auth_record where
  "rec_a = \<lparr>name = ''a.json'', path = ''/tmp/a.json'', token = ''tok-a'',
            email = Some ''a@example.com'', account_id = None\<rparr>"

definition rec_b :: auth_record where
  "rec_b = \<lparr>name = ''b.json'', path = ''/tmp/b.json'', token = ''tok-b'',
            email = Some ''b@example.com'', account_id = None\<rparr>"

definition rec_a_new :: auth_record where
  "rec_a_new = \<lparr>name = ''a.json'', path = ''/tmp/a.json'', token = ''tok-new'',
                email = Some ''a@example.com'', account_id = None\<rparr>"

definition pool_ab :: pool where
  "pool_ab = load RoundRobinAuthPool [rec_a, rec_b]"

text \<open>Token a after a 401 at time 1000: blacklisted, probation started.\<close>

definition pool_blacklisted :: pool where
  "pool_blacklisted = mark_result pool_ab ''a.json'' 401 (Some ''token_expired'') None 1000"

text \<open>Token a after four 429 answers in a row at time 1000.\<close>

definition pool_four_strikes :: pool where
  "pool_four_strikes =
     mark_results pool_ab ''a.json'' [(429, 1000), (429, 1000), (429, 1000), (429, 1000)]"

text \<open>A state with five hard failures behind it.\<close>

definition state_five_failures :: auth_state where
  "state_five_failures = (AuthState rec_a)\<lparr>hard_failures := 5, errors := 5\<rparr>"

text \<open>The state of token a in \<open>pool_blacklisted\<close> and in \<open>pool_four_strikes\<close>.\<close>

definition state_blacklisted :: auth_state where
  "state_blacklisted = mark_blacklist (AuthState rec_a) 1000 ''token_expired''"

definition state_four_strikes :: auth_state where
  "state_four_strikes =
     (AuthState rec_a)\<lparr>cooldown_until := 1240, errors := 4, rate_limit_strikes := 4\<rparr>"

text \<open>A heap with the three event dictionaries of the trace-store test and no list.\<close>

definition heap_three :: pyheap where
  "heap_three =
     \<lparr>dict_objs = [[(''status'', PyInt 200)], [(''status'', PyInt 201)], [(''status'', PyInt 202)]],
      list_objs = []\<rparr>"

section \<open>Properties of the rotation pool\<close>

lemma mark_success_record: "state_record (mark_success s now) = state_record s"
  by (simp add: mark_success_def Let_def)

lemma mark_blacklist_record: "state_record (mark_blacklist s now r) = state_record s"
  by (simp add: mark_blacklist_def Let_def)

lemma mark_rate_limited_record: "state_record (mark_rate_limited s now ov) = state_record s"
  by (simp add: mark_rate_limited_def mark_blacklist_record Let_def)

lemma mark_transient_failure_record: "state_record (mark_transient_failure s now) = state_record s"
  by (simp add: mark_transient_failure_def Let_def)

lemma classify_result_record: "state_record (classify_result s st ec cs now) = state_record s"
  by (simp add: classify_result_def Let_def mark_success_record mark_blacklist_record
      mark_rate_limited_record mark_transient_failure_record)

lemma find_mark_states:
  "find (\<lambda>s. name (state_record s) = n) sts = Some s \<Longrightarrow>
   find (\<lambda>s. name (state_record s) = n) (mark_states sts n st ec cs now)
     = Some (classify_result s st ec cs now)"
  by (induction sts) (auto simp: classify_result_record)

lemma state_named_mark_result:
  "state_named p n = Some s \<Longrightarrow>
   state_named (mark_result p n st ec cs now) n = Some (classify_result s st ec cs now)"
  by (simp add: state_named_def mark_result_def find_mark_states)

lemma classify_result_success:
  "200 \<le> st \<Longrightarrow> st < 400 \<Longrightarrow> classify_result s st ec cs now = mark_success s now"
  by (simp add: classify_result_def)

lemma classify_result_429:
  "classify_result s 429 ec cs now =
     mark_rate_limited s now (case cs of None \<Rightarrow> None | Some c \<Rightarrow> Some (max 1 c))"
  by (simp add: classify_result_def)

lemma state_named_mark_results:
  "state_named p n = Some s \<Longrightarrow> \<forall>c\<in>set calls. 200 \<le> fst c \<and> fst c < 400 \<Longrightarrow>
   state_named (mark_results p n calls) n = Some (fold (\<lambda>c s. mark_success s (snd c)) calls s)"
proof (induction calls arbitrary: p s)
  case Nil
  then show ?case by simp
next
  case (Cons c calls)
  obtain st now where c: "c = (st, now)" by (cases c)
  from Cons.prems c have "state_named (mark_result p n st None None now) n = Some (mark_success s now)"
    by (simp add: state_named_mark_result classify_result_success)
  from Cons.IH[OF this] Cons.prems(2) c show ?case by simp
qed

lemma mark_success_settled:
  "probation_target s \<le> probation_successes s \<Longrightarrow> blacklist_until s = 0 \<Longrightarrow>
   blacklist_reason s = None \<Longrightarrow> next_probe_after s = 0 \<Longrightarrow>
   s' = mark_success s now \<Longrightarrow>
   probation_target s' \<le> probation_successes s' \<and> blacklist_until s' = 0 \<and>
   blacklist_reason s' = None \<and> next_probe_after s' = 0 \<and> cooldown_until s' = 0"
  by (simp add: mark_success_def Let_def)

lemma mark_success_completes:
  "probation_successes s < probation_target s \<Longrightarrow>
   probation_target s \<le> probation_successes s + 1 \<Longrightarrow>
   s' = mark_success s now \<Longrightarrow>
   probation_target s' \<le> probation_successes s' \<and> blacklist_until s' = 0 \<and>
   blacklist_reason s' = None \<and> next_probe_after s' = 0 \<and> cooldown_until s' = 0"
  by (simp add: mark_success_def Let_def)

lemma mark_success_counts:
  "probation_successes s + 1 < probation_target s \<Longrightarrow>
   probation_successes (mark_success s now) = probation_successes s + 1 \<and>
   probation_target (mark_success s now) = probation_target s"
  by (simp add: mark_success_def Let_def)

lemma successes_settled:
  "probation_target s \<le> probation_successes s \<Longrightarrow> blacklist_until s = 0 \<Longrightarrow>
   blacklist_reason s = None \<Longrightarrow> next_probe_after s = 0 \<Longrightarrow> cooldown_until s = 0 \<Longrightarrow>
   s' = fold (\<lambda>c s. mark_success s (snd c)) calls s \<Longrightarrow>
   probation_target s' \<le> probation_successes s' \<and> blacklist_until s' = 0 \<and>
   blacklist_reason s' = None \<and> next_probe_after s' = 0 \<and> cooldown_until s' = 0"
proof (induction calls arbitrary: s)
  case Nil
  then show ?case by simp
next
  case (Cons c calls)
  let ?s1 = "mark_success s (snd c)"
  have "probation_target ?s1 \<le> probation_successes ?s1 \<and> blacklist_until ?s1 = 0 \<and>
   blacklist_reason ?s1 = None \<and> next_probe_after ?s1 = 0 \<and> cooldown_until ?s1 = 0"
    using mark_success_settled[OF Cons.prems(1-4) refl] .
  with Cons.IH[of ?s1] Cons.prems(6) show ?case by simp
qed

lemma successes_reach:
  "probation_successes s < probation_target s \<Longrightarrow>
   probation_target s - probation_successes s \<le> int (length calls) \<Longrightarrow>
   s' = fold (\<lambda>c s. mark_success s (snd c)) calls s \<Longrightarrow>
   probation_target s' \<le> probation_successes s' \<and> blacklist_until s' = 0 \<and>
   blacklist_reason s' = None \<and> next_probe_after s' = 0 \<and> cooldown_until s' = 0"
proof (induction calls arbitrary: s)
  case Nil
  then show ?case by simp
next
  case (Cons c calls)
  let ?s1 = "mark_success s (snd c)"
  have s': "s' = fold (\<lambda>c s. mark_success s (snd c)) calls ?s1"
    using Cons.prems(3) by simp
  show ?case
  proof (cases "probation_target s \<le> probation_successes s + 1")
    case True
    from mark_success_completes[OF Cons.prems(1) True refl]
    have "probation_target ?s1 \<le> probation_successes ?s1 \<and> blacklist_until ?s1 = 0 \<and>
      blacklist_reason ?s1 = None \<and> next_probe_after ?s1 = 0 \<and> cooldown_until ?s1 = 0" .
    then show ?thesis using successes_settled[of ?s1 s' calls] s' by blast
  next
    case False
    then have lt: "probation_successes s + 1 < probation_target s" by simp
    from mark_success_counts[OF lt, of "snd c"]
    have eq: "probation_successes ?s1 = probation_successes s + 1"
      "probation_target ?s1 = probation_target s" by simp_all
    have "probation_successes ?s1 < probation_target ?s1" using eq lt by simp
    moreover have "probation_target ?s1 - probation_successes ?s1 \<le> int (length calls)"
      using eq Cons.prems(2) by simp
    ultimately show ?thesis using Cons.IH[of ?s1] s' by blast
  qed
qed

lemma successes_short:
  "probation_successes s + int (length calls) < probation_target s \<Longrightarrow>
   s' = fold (\<lambda>c s. mark_success s (snd c)) calls s \<Longrightarrow>
   probation_successes s' < probation_target s'"
proof (induction calls arbitrary: s)
  case Nil
  then show ?case by simp
next
  case (Cons c calls)
  let ?s1 = "mark_success s (snd c)"
  have lt: "probation_successes s + 1 < probation_target s" using Cons.prems(1) by simp
  from mark_success_counts[OF lt, of "snd c"]
  have eq: "probation_successes ?s1 = probation_successes s + 1"
    "probation_target ?s1 = probation_target s" by simp_all
  have "probation_successes ?s1 + int (length calls) < probation_target ?s1"
    using eq Cons.prems(1) by simp
  then show ?case using Cons.IH[of ?s1] Cons.prems(2) by simp
qed

lemma status_ok_iff:
  "status s t = ''OK'' \<longleftrightarrow>
     \<not> t < blacklist_until s \<and> \<not> t < cooldown_until s \<and>
     probation_target s \<le> probation_successes s"
  by (auto simp: status_def)

text \<open>
  The probation counter is never negative in a state the pool holds: a new state has
  the value 2, a blacklisting sets it to 0, and it is only ever incremented.
\<close>

lemma classify_result_counter_nonneg:
  "0 \<le> probation_successes s \<Longrightarrow>
   0 \<le> probation_successes (classify_result s st ec cs now)"
  by (simp add: classify_result_def mark_success_def mark_blacklist_def mark_rate_limited_def
      mark_transient_failure_def Let_def)

lemma load_state_counter_nonneg:
  "\<forall>prev. previous (name r) = Some prev \<longrightarrow> 0 \<le> probation_successes prev \<Longrightarrow>
   0 \<le> probation_successes (load_state previous r)"
  by (simp add: load_state_def AuthState_def PROBATION_SUCCESS_TARGET_def Let_def
      split: option.split)

text \<open>
  Claim C1. For every token state and every time \<open>t\<close>, \<open>available(t)\<close> is true if and
  only if \<open>t \<ge> blacklist_until\<close> and \<open>t \<ge> cooldown_until\<close> and
  (\<open>probation_successes \<ge> probation_target\<close> or \<open>t \<ge> next_probe_after\<close>).
\<close>
theorem available_iff:
  "available s t \<longleftrightarrow>
     t \<ge> blacklist_until s \<and> t \<ge> cooldown_until s \<and>
     (probation_successes s \<ge> probation_target s \<or> t \<ge> next_probe_after s)"
  by (auto simp: available_def)

text \<open>
  Claim C2. Take the state of a loaded token that is in probation
  (\<open>probation_successes < probation_target\<close>, the counter not negative) and
  \<open>probation_target\<close> successive \<open>mark_result\<close> calls with a 2xx status. After them
  \<open>blacklist_until\<close>, \<open>blacklist_reason\<close> and \<open>next_probe_after\<close> are cleared and the
  status is \<open>OK\<close> at every clock value from 0 on. The state is not \<open>OK\<close> after a
  shorter run that leaves the counter below the target, and it is cleared and \<open>OK\<close>
  right after the success that makes the counter reach the target: from the start
  of probation (counter 0) that is exactly the success number \<open>probation_target\<close>.
\<close>
theorem probation_recovery:
  assumes named: "state_named p n = Some s"
    and nonneg: "0 \<le> probation_successes s"
    and prob: "probation_successes s < probation_target s"
    and len: "length calls = nat (probation_target s)"
    and ok: "\<forall>c\<in>set calls. 200 \<le> fst c \<and> fst c < 300"
  shows "\<exists>s'. state_named (mark_results p n calls) n = Some s' \<and>
           blacklist_until s' = 0 \<and> blacklist_reason s' = None \<and> next_probe_after s' = 0 \<and>
           (\<forall>t\<ge>0. status s' t = ''OK'') \<and>
           (\<forall>k<length calls. probation_successes s + int k < probation_target s \<longrightarrow>
              (\<exists>sk. state_named (mark_results p n (take k calls)) n = Some sk \<and>
                    (\<forall>t. status sk t \<noteq> ''OK''))) \<and>
           (\<forall>k<length calls. probation_successes s + int k + 1 = probation_target s \<longrightarrow>
              (\<exists>sk. state_named (mark_results p n (take (Suc k) calls)) n = Some sk \<and>
                    blacklist_until sk = 0 \<and> blacklist_reason sk = None \<and>
                    next_probe_after sk = 0 \<and> (\<forall>t\<ge>0. status sk t = ''OK'')))"
proof -
  let ?run = "\<lambda>cs. fold (\<lambda>c s. mark_success s (snd c)) cs s"
  have ok4: "\<forall>c\<in>set calls. 200 \<le> fst c \<and> fst c < 400" using ok by auto
  have run: "state_named (mark_results p n cs) n = Some (?run cs)"
    if "set cs \<subseteq> set calls" for cs :: "(int \<times> real) list"
    using state_named_mark_results[OF named, of cs] ok4 that by blast
  have settled: "blacklist_until (?run cs) = 0 \<and> blacklist_reason (?run cs) = None \<and>
      next_probe_after (?run cs) = 0 \<and> (\<forall>t\<ge>0. status (?run cs) t = ''OK'')"
    if "probation_target s - probation_successes s \<le> int (length cs)"
    for cs :: "(int \<times> real) list"
  proof -
    from successes_reach[OF prob that refl]
    have r: "probation_target (?run cs) \<le> probation_successes (?run cs)"
      "blacklist_until (?run cs) = 0" "blacklist_reason (?run cs) = None"
      "next_probe_after (?run cs) = 0" "cooldown_until (?run cs) = 0" by simp_all
    then show ?thesis by (simp add: status_ok_iff)
  qed
  have full: "probation_target s - probation_successes s \<le> int (length calls)"
    using len nonneg prob by simp
  have early: "\<forall>t. status (?run cs) t \<noteq> ''OK''"
    if "probation_successes s + int (length cs) < probation_target s"
    for cs :: "(int \<times> real) list"
    using successes_short[OF that refl] by (simp add: status_ok_iff)
  have A: "state_named (mark_results p n calls) n = Some (?run calls)" using run by simp
  have B: "blacklist_until (?run calls) = 0 \<and> blacklist_reason (?run calls) = None \<and>
      next_probe_after (?run calls) = 0 \<and> (\<forall>t\<ge>0. status (?run calls) t = ''OK'')"
    using settled[OF full] .
  have C: "\<forall>k<length calls. probation_successes s + int k < probation_target s \<longrightarrow>
              (\<exists>sk. state_named (mark_results p n (take k calls)) n = Some sk \<and>
                    (\<forall>t. status sk t \<noteq> ''OK''))"
  proof (intro allI impI)
    fix k assume k: "k < length calls"
      and lt: "probation_successes s + int k < probation_target s"
    have "length (take k calls) = k" using k by simp
    then have "\<forall>t. status (?run (take k calls)) t \<noteq> ''OK''"
      using early[of "take k calls"] lt by simp
    moreover have "state_named (mark_results p n (take k calls)) n = Some (?run (take k calls))"
      using run[of "take k calls"] by (simp add: set_take_subset)
    ultimately show "\<exists>sk. state_named (mark_results p n (take k calls)) n = Some sk \<and>
                    (\<forall>t. status sk t \<noteq> ''OK'')" by blast
  qed
  have D: "\<forall>k<length calls. probation_successes s + int k + 1 = probation_target s \<longrightarrow>
              (\<exists>sk. state_named (mark_results p n (take (Suc k) calls)) n = Some sk \<and>
                    blacklist_until sk = 0 \<and> blacklist_reason sk = None \<and>
                    next_probe_after sk = 0 \<and> (\<forall>t\<ge>0. status sk t = ''OK''))"
  proof (intro allI impI)
    fix k assume k: "k < length calls"
      and eq: "probation_successes s + int k + 1 = probation_target s"
    have "length (take (Suc k) calls) = Suc k" using k by simp
    then have "probation_target s - probation_successes s \<le> int (length (take (Suc k) calls))"
      using eq by simp
    from settled[OF this]
    have "blacklist_until (?run (take (Suc k) calls)) = 0 \<and>
      blacklist_reason (?run (take (Suc k) calls)) = None \<and>
      next_probe_after (?run (take (Suc k) calls)) = 0 \<and>
      (\<forall>t\<ge>0. status (?run (take (Suc k) calls)) t = ''OK'')" .
    moreover have "state_named (mark_results p n (take (Suc k) calls)) n
        = Some (?run (take (Suc k) calls))"
      using run[of "take (Suc k) calls"] by (simp add: set_take_subset)
    ultimately show "\<exists>sk. state_named (mark_results p n (take (Suc k) calls)) n = Some sk \<and>
                    blacklist_until sk = 0 \<and> blacklist_reason sk = None \<and>
                    next_probe_after sk = 0 \<and> (\<forall>t\<ge>0. status sk t = ''OK'')" by blast
  qed
  from A B C D show ?thesis by blast
qed


lemma rate_limit_cooldown_table:
  "map rate_limit_cooldown_seconds [1, 2, 3, 4, 5, 6, 7] = [30, 60, 120, 240, 480, 900, 900]"
  by (simp add: rate_limit_cooldown_seconds_def MAX_COOLDOWN_SECONDS_def
      DEFAULT_COOLDOWN_SECONDS_def Let_def)

lemma rate_limit_cooldown_formula:
  "1 \<le> k \<Longrightarrow> rate_limit_cooldown_seconds k = min 900 (30 * 2 ^ nat (min (k - 1) 6))"
  by (simp add: rate_limit_cooldown_seconds_def MAX_COOLDOWN_SECONDS_def
      DEFAULT_COOLDOWN_SECONDS_def Let_def max_def)

lemma scaled_power_pos: "0 < c \<Longrightarrow> (1::int) \<le> c * 2 ^ m"
proof -
  assume c: "0 < c"
  have "(1::int) \<le> 2 ^ m" by simp
  then have "c * 1 \<le> c * 2 ^ m" using c by (intro mult_left_mono) simp_all
  then have "c \<le> c * 2 ^ m" by simp
  with c show ?thesis by linarith
qed

lemma rate_limit_cooldown_pos: "1 \<le> rate_limit_cooldown_seconds k"
  using scaled_power_pos [of 30 "nat (min (max (k - 1) 0) 6)"]
  by (simp add: rate_limit_cooldown_seconds_def MAX_COOLDOWN_SECONDS_def
      DEFAULT_COOLDOWN_SECONDS_def Let_def)

lemma blacklist_ttl_pos: "1 \<le> blacklist_ttl k"
  using scaled_power_pos [of 900 "nat (min (max (k - 1) 0) 4)"]
  by (simp add: blacklist_ttl_def MAX_BLACKLIST_SECONDS_def
      DEFAULT_BLACKLIST_SECONDS_def Let_def)

lemma mark_blacklist_fields:
  "hard_failures (mark_blacklist s now r) = hard_failures s + 1"
  "errors (mark_blacklist s now r) = errors s + 1"
  "rate_limit_strikes (mark_blacklist s now r) = rate_limit_strikes s"
  "blacklist_until (mark_blacklist s now r)
     = max (blacklist_until s) (now + of_int (blacklist_ttl (hard_failures s + 1)))"
  "blacklist_reason (mark_blacklist s now r) = Some r"
  "probation_target (mark_blacklist s now r) = 2"
  "probation_successes (mark_blacklist s now r) = 0"
  "next_probe_after (mark_blacklist s now r) = blacklist_until (mark_blacklist s now r)"
  "cooldown_until (mark_blacklist s now r)
     = max (cooldown_until s) (blacklist_until (mark_blacklist s now r))"
  using blacklist_ttl_pos [of "hard_failures s + 1"]
  by (simp_all add: mark_blacklist_def Let_def PROBATION_SUCCESS_TARGET_def max_absorb2)

lemma mark_rate_limited_below_5:
  "rate_limit_strikes s + 1 < 5 \<Longrightarrow>
   mark_rate_limited s now ov =
     s\<lparr>errors := errors s + 1, rate_limit_strikes := rate_limit_strikes s + 1,
       cooldown_until := max (cooldown_until s)
         (now + of_int (max 1 (case ov of Some v \<Rightarrow> v
                                | None \<Rightarrow> rate_limit_cooldown_seconds (rate_limit_strikes s + 1))))\<rparr>"
  by (simp add: mark_rate_limited_def Let_def split: option.split)

lemma mark_rate_limited_from_5:
  "5 \<le> rate_limit_strikes s + 1 \<Longrightarrow>
   mark_rate_limited s now ov =
     mark_blacklist
       (s\<lparr>errors := errors s + 1, rate_limit_strikes := rate_limit_strikes s + 1,
          cooldown_until := max (cooldown_until s)
            (now + of_int (max 1 (case ov of Some v \<Rightarrow> v
                                   | None \<Rightarrow> rate_limit_cooldown_seconds (rate_limit_strikes s + 1))))\<rparr>)
       now ''rate_limited_persistent''"
  by (simp add: mark_rate_limited_def Let_def split: option.split)

text \<open>
  Claim C3, as the code has it. On \<open>mark_result\<close> with status 429 and no
  \<open>cooldown_seconds\<close>, the strike counter is incremented and the cooldown computed
  for the strikes 1 to 7 is 30, 60, 120, 240, 480, 900, 900 seconds, that is
  \<open>min(900, 30 * 2^min(strikes - 1, 6))\<close>. While the new strike count is below 5,
  \<open>cooldown_until\<close> becomes the maximum of its old value and \<open>now + cooldown\<close>. From
  the fifth strike on the token is blacklisted as well, and \<open>cooldown_until\<close> becomes
  the maximum of that value and the new \<open>blacklist_until\<close>.
\<close>
theorem rate_limited_cooldown:
  assumes named: "state_named p n = Some s"
  shows "\<exists>s'. state_named (mark_result p n 429 ec None now) n = Some s' \<and>
           rate_limit_strikes s' = rate_limit_strikes s + 1 \<and>
           map rate_limit_cooldown_seconds [1, 2, 3, 4, 5, 6, 7]
             = [30, 60, 120, 240, 480, 900, 900] \<and>
           (\<forall>k\<ge>1. rate_limit_cooldown_seconds k = min 900 (30 * 2 ^ nat (min (k - 1) 6))) \<and>
           (rate_limit_strikes s' < 5 \<longrightarrow>
              cooldown_until s' = max (cooldown_until s)
                (now + of_int (rate_limit_cooldown_seconds (rate_limit_strikes s')))) \<and>
           (5 \<le> rate_limit_strikes s' \<longrightarrow>
              blacklist_until s' = max (blacklist_until s)
                (now + of_int (blacklist_ttl (hard_failures s + 1))) \<and>
              cooldown_until s' =
                max (max (cooldown_until s)
                       (now + of_int (rate_limit_cooldown_seconds (rate_limit_strikes s'))))
                    (blacklist_until s'))"
proof -
  let ?s' = "mark_rate_limited s now None"
  have A: "state_named (mark_result p n 429 ec None now) n = Some ?s'"
    using state_named_mark_result [OF named, of 429 ec None now]
    by (simp add: classify_result_429)
  have m1: "max 1 (rate_limit_cooldown_seconds k) = rate_limit_cooldown_seconds k" for k
    using rate_limit_cooldown_pos [of k] by simp
  have B: "rate_limit_strikes ?s' = rate_limit_strikes s + 1"
    by (cases "rate_limit_strikes s + 1 < 5")
      (simp_all add: mark_rate_limited_below_5 mark_rate_limited_from_5 mark_blacklist_fields)
  have C: "rate_limit_strikes ?s' < 5 \<longrightarrow>
              cooldown_until ?s' = max (cooldown_until s)
                (now + of_int (rate_limit_cooldown_seconds (rate_limit_strikes ?s')))"
    unfolding B by (simp add: mark_rate_limited_below_5 m1)
  have D: "5 \<le> rate_limit_strikes ?s' \<longrightarrow>
              blacklist_until ?s' = max (blacklist_until s)
                (now + of_int (blacklist_ttl (hard_failures s + 1))) \<and>
              cooldown_until ?s' =
                max (max (cooldown_until s)
                       (now + of_int (rate_limit_cooldown_seconds (rate_limit_strikes ?s'))))
                    (blacklist_until ?s')"
    unfolding B by (simp add: mark_rate_limited_from_5 mark_blacklist_fields m1)
  have E: "\<forall>k\<ge>1. rate_limit_cooldown_seconds k = min 900 (30 * 2 ^ nat (min (k - 1) 6))"
    using rate_limit_cooldown_formula by blast
  show ?thesis
    by (intro exI [of _ "?s'"] conjI A B C D E rate_limit_cooldown_table)
qed



theorem probation_recovery_witness:
  "state_named pool_blacklisted ''a.json'' = Some state_blacklisted \<and>
   0 \<le> probation_successes state_blacklisted \<and>
   probation_successes state_blacklisted < probation_target state_blacklisted \<and>
   length [(200::int, 1901::real), (200, 1922)] = nat (probation_target state_blacklisted) \<and>
   status (the (state_named
       (mark_results pool_blacklisted ''a.json'' [(200, 1901), (200, 1922)]) ''a.json'')) 1922
     = ''OK''"
proof -
  have h1: "state_named pool_blacklisted ''a.json'' = Some state_blacklisted" by code_simp
  have h2: "0 \<le> probation_successes state_blacklisted" by code_simp
  have h3: "probation_successes state_blacklisted < probation_target state_blacklisted"
    by code_simp
  have h4: "length [(200::int, 1901::real), (200, 1922)]
      = nat (probation_target state_blacklisted)" by code_simp
  have h5: "\<forall>c\<in>set [(200::int, 1901::real), (200, 1922)]. 200 \<le> fst c \<and> fst c < 300"
    by simp
  from probation_recovery [OF h1 h2 h3 h4 h5] obtain s' where
    "state_named (mark_results pool_blacklisted ''a.json'' [(200, 1901), (200, 1922)]) ''a.json''
       = Some s'" and "\<forall>t\<ge>0. status s' t = ''OK''" by blast
  then have "status (the (state_named
       (mark_results pool_blacklisted ''a.json'' [(200, 1901), (200, 1922)]) ''a.json'')) 1922
     = ''OK''" by simp
  with h1 h2 h3 h4 show ?thesis by blast
qed

theorem rate_limited_cooldown_witness:
  "state_named pool_four_strikes ''a.json'' = Some state_four_strikes \<and>
   rate_limit_strikes state_four_strikes + 1 = 5 \<and>
   cooldown_until (the (state_named
       (mark_result pool_four_strikes ''a.json'' 429 None None 1000) ''a.json''))
     = max (max 1240 (1000 + 480)) 1900"
proof -
  have h1: "state_named pool_four_strikes ''a.json'' = Some state_four_strikes" by code_simp
  have v: "rate_limit_strikes state_four_strikes + 1 = 5"
    "cooldown_until state_four_strikes = 1240" "blacklist_until state_four_strikes = 0"
    "hard_failures state_four_strikes = 0" "rate_limit_cooldown_seconds 5 = 480"
    "blacklist_ttl 1 = 900"
    by code_simp+
  from rate_limited_cooldown [OF h1, of None 1000] obtain s' where
    s': "state_named (mark_result pool_four_strikes ''a.json'' 429 None None 1000) ''a.json''
       = Some s'" "rate_limit_strikes s' = rate_limit_strikes state_four_strikes + 1"
      "5 \<le> rate_limit_strikes s' \<longrightarrow>
        blacklist_until s' = max (blacklist_until state_four_strikes)
                (1000 + of_int (blacklist_ttl (hard_failures state_four_strikes + 1))) \<and>
              cooldown_until s' =
                max (max (cooldown_until state_four_strikes)
                       (1000 + of_int (rate_limit_cooldown_seconds (rate_limit_strikes s'))))
                    (blacklist_until s')" by blast
  from s'(2,3) v have "cooldown_until s' = max (max 1240 (1000 + 480)) 1900" by simp
  with s'(1) h1 v(1) show ?thesis by simp
qed

text \<open>
  The fifth 429 in a row at time 1000: the cooldown computed is 480 seconds, yet
  \<open>cooldown_until\<close> ends at 1900, the new \<open>blacklist_until\<close>, and not at
  \<open>max(1240, 1000 + 480)\<close>.
\<close>
theorem rate_limited_cooldown_counterexample:
  "state_named pool_four_strikes ''a.json'' = Some state_four_strikes \<and>
   rate_limit_strikes (the (state_named
       (mark_result pool_four_strikes ''a.json'' 429 None None 1000) ''a.json'')) = 5 \<and>
   rate_limit_cooldown_seconds 5 = 480 \<and>
   cooldown_until (the (state_named
       (mark_result pool_four_strikes ''a.json'' 429 None None 1000) ''a.json''))
     \<noteq> max (cooldown_until state_four_strikes) (1000 + of_int (rate_limit_cooldown_seconds 5))"
  by code_simp

lemma blacklist_ttl_table:
  "map blacklist_ttl [1, 2, 3, 4, 5, 6] = [900, 1800, 3600, 7200, 14400, 14400]"
  by (simp add: blacklist_ttl_def MAX_BLACKLIST_SECONDS_def DEFAULT_BLACKLIST_SECONDS_def Let_def)

lemma blacklist_ttl_bound: "blacklist_ttl k \<le> 14400"
proof -
  have "nat (min (max (k - 1) 0) 4) \<le> 4" by simp
  then have "(2::int) ^ nat (min (max (k - 1) 0) 4) \<le> 2 ^ 4"
    by (intro power_increasing) simp_all
  then show ?thesis
    by (simp add: blacklist_ttl_def MAX_BLACKLIST_SECONDS_def DEFAULT_BLACKLIST_SECONDS_def
        Let_def min_def)
qed

text \<open>
  Claim C4, as the code has it. A hard-blacklist transition increments
  \<open>hard_failures\<close>; for the values 1 to 6 of the incremented counter the ttl is
  900, 1800, 3600, 7200, 14400, 14400 seconds, that is
  \<open>min(6 h, 15 min * 2^min(hard_failures - 1, 4))\<close>, which never exceeds 14400, so
  the cap of 6 hours is never the value. \<open>blacklist_until\<close> becomes the maximum of
  its old value and \<open>now + ttl\<close>.
\<close>
theorem blacklist_ttl_schedule:
  "map blacklist_ttl [1, 2, 3, 4, 5, 6] = [900, 1800, 3600, 7200, 14400, 14400] \<and>
   blacklist_ttl k = min (6 * 60 * 60) (15 * 60 * 2 ^ nat (min (max (k - 1) 0) 4)) \<and>
   blacklist_ttl k \<le> 14400 \<and>
   hard_failures (mark_blacklist s now r) = hard_failures s + 1 \<and>
   blacklist_until (mark_blacklist s now r)
     = max (blacklist_until s) (now + of_int (blacklist_ttl (hard_failures (mark_blacklist s now r))))"
  by (simp add: blacklist_ttl_table blacklist_ttl_bound mark_blacklist_fields)
    (simp add: blacklist_ttl_def MAX_BLACKLIST_SECONDS_def DEFAULT_BLACKLIST_SECONDS_def Let_def)

text \<open>
  The sixth hard failure at time 1000: \<open>blacklist_until\<close> is not extended by 21600
  seconds.
\<close>
theorem blacklist_ttl_counterexample:
  "hard_failures (mark_blacklist state_five_failures 1000 ''forbidden'') = 6 \<and>
   blacklist_until (mark_blacklist state_five_failures 1000 ''forbidden'')
     \<noteq> max (blacklist_until state_five_failures) (1000 + 21600)"
  by code_simp

lemma load_length: "length (states (load p rs)) = length rs"
  by (simp add: load_def Let_def)

lemma load_nth: "i < length rs \<Longrightarrow> states (load p rs) ! i = load_state (previous_map (states p)) (rs ! i)"
  by (simp add: load_def Let_def)

lemma load_state_changed_token:
  "previous (name r) = Some prev \<Longrightarrow> token (state_record prev) \<noteq> token r \<Longrightarrow>
   load_state previous r =
     \<lparr>state_record = r, cooldown_until = 0, blacklist_until = 0, blacklist_reason = None,
      probation_successes = 2, probation_target = 2, next_probe_after = 0,
      used = used prev, errors = errors prev, rate_limit_strikes = 0, hard_failures = 0\<rparr>"
  by (simp add: load_state_def AuthState_def PROBATION_SUCCESS_TARGET_def Let_def)

lemma previous_map_snoc:
  "previous_map (sts @ [s]) = (previous_map sts)(name (state_record s) \<mapsto> s)"
  by (simp add: previous_map_def)

lemma previous_map_last:
  "previous_map sts n = find (\<lambda>s. name (state_record s) = n) (rev sts)"
proof (induction sts rule: rev_induct)
  case Nil
  then show ?case by (simp add: previous_map_def)
next
  case (snoc s sts)
  then show ?case by (simp add: previous_map_snoc)
qed

lemma find_Some_member: "find P xs = Some x \<Longrightarrow> x \<in> set xs \<and> P x"
  by (induction xs) (auto split: if_splits)

text \<open>
  Claim C5. When \<open>load\<close> meets a record whose name has a prior state with another
  token, the new state carries only \<open>used\<close> and \<open>errors\<close> of the prior state:
  \<open>cooldown_until\<close>, \<open>blacklist_until\<close>, \<open>next_probe_after\<close>, \<open>rate_limit_strikes\<close>
  and \<open>hard_failures\<close> are 0, \<open>blacklist_reason\<close> is \<open>None\<close>, probation successes and
  target are both 2, and the state is available at every clock value from 0 on.
\<close>
theorem load_changed_token:
  assumes i: "i < length rs"
    and prev: "previous_map (states p) (name (rs ! i)) = Some prev"
    and tok: "token (state_record prev) \<noteq> token (rs ! i)"
  shows "length (states (load p rs)) = length rs \<and>
         prev \<in> set (states p) \<and> name (state_record prev) = name (rs ! i) \<and>
         state_record (states (load p rs) ! i) = rs ! i \<and>
         used (states (load p rs) ! i) = used prev \<and>
         errors (states (load p rs) ! i) = errors prev \<and>
         cooldown_until (states (load p rs) ! i) = 0 \<and>
         blacklist_until (states (load p rs) ! i) = 0 \<and>
         next_probe_after (states (load p rs) ! i) = 0 \<and>
         rate_limit_strikes (states (load p rs) ! i) = 0 \<and>
         hard_failures (states (load p rs) ! i) = 0 \<and>
         blacklist_reason (states (load p rs) ! i) = None \<and>
         probation_successes (states (load p rs) ! i) = 2 \<and>
         probation_target (states (load p rs) ! i) = 2 \<and>
         (\<forall>t\<ge>0. available (states (load p rs) ! i) t)"
proof -
  have eq: "states (load p rs) ! i =
     \<lparr>state_record = rs ! i, cooldown_until = 0, blacklist_until = 0, blacklist_reason = None,
      probation_successes = 2, probation_target = 2, next_probe_after = 0,
      used = used prev, errors = errors prev, rate_limit_strikes = 0, hard_failures = 0\<rparr>"
    using load_nth [OF i, of p]
      load_state_changed_token [of "previous_map (states p)" "rs ! i" prev, OF prev tok]
    by simp
  have f: "find (\<lambda>s. name (state_record s) = name (rs ! i)) (rev (states p)) = Some prev"
    using prev by (simp add: previous_map_last)
  have mem: "prev \<in> set (states p) \<and> name (state_record prev) = name (rs ! i)"
    using find_Some_member [OF f] by simp
  show ?thesis unfolding eq using mem by (simp add: load_length available_def)
qed

theorem load_changed_token_witness:
  "0 < length [rec_a_new] \<and>
   previous_map (states pool_blacklisted) (name ([rec_a_new] ! 0)) = Some state_blacklisted \<and>
   token (state_record state_blacklisted) \<noteq> token ([rec_a_new] ! 0) \<and>
   \<not> available state_blacklisted 1000 \<and>
   available (states (load pool_blacklisted [rec_a_new]) ! 0) 1000 \<and>
   errors (states (load pool_blacklisted [rec_a_new]) ! 0) = 1"
proof -
  have h1: "0 < length [rec_a_new]" by simp
  have h2: "previous_map (states pool_blacklisted) (name ([rec_a_new] ! 0)) = Some state_blacklisted"
    unfolding previous_map_last by code_simp
  have h3: "token (state_record state_blacklisted) \<noteq> token ([rec_a_new] ! 0)" by code_simp
  have v: "\<not> available state_blacklisted 1000" "errors state_blacklisted = 1" by code_simp+
  from load_changed_token [OF h1 h2 h3] v h1 h2 h3 show ?thesis by simp
qed

text \<open>
  Claim C9. For a name that no loaded state has, \<open>mark_result\<close> leaves the pool as
  it is, whatever the status, error code and cooldown: every state and the cursor
  are unchanged. The operation has no failing branch.
\<close>
theorem mark_result_unknown_name:
  assumes "auth_name \<notin> set (map (\<lambda>s. name (state_record s)) (states p))"
  shows "mark_result p auth_name st error_code cooldown_seconds now = p"
proof -
  have "mark_states sts auth_name st error_code cooldown_seconds now = sts"
    if "auth_name \<notin> set (map (\<lambda>s. name (state_record s)) sts)" for sts
    using that by (induction sts) auto
  with assms show ?thesis by (simp add: mark_result_def)
qed

theorem mark_result_unknown_name_witness:
  "''c.json'' \<notin> set (map (\<lambda>s. name (state_record s)) (states pool_ab)) \<and>
   mark_result pool_ab ''c.json'' 401 (Some ''token_expired'') None 1000 = pool_ab \<and>
   mark_result pool_ab ''c.json'' 429 None (Some 60) 1000 = pool_ab"
proof -
  have h: "''c.json'' \<notin> set (map (\<lambda>s. name (state_record s)) (states pool_ab))"
    by code_simp
  from mark_result_unknown_name [OF h] h show ?thesis by simp
qed

text \<open>
  Claim C8. \<open>mark_cooldown(name, seconds)\<close> yields the pool that
  \<open>mark_result(name, status=429, cooldown_seconds=seconds)\<close> yields. On a loaded
  token it increments \<open>rate_limit_strikes\<close> and \<open>errors\<close> (\<open>errors\<close> twice when the
  token is blacklisted too), and once the strikes reach 5 the token is
  hard-blacklisted with the reason \<open>rate_limited_persistent\<close>.
\<close>
theorem mark_cooldown_is_mark_result:
  "mark_cooldown p n seconds now = mark_result p n 429 None (Some seconds) now \<and>
   (\<forall>s. state_named p n = Some s \<longrightarrow>
      (\<exists>s'. state_named (mark_cooldown p n seconds now) n = Some s' \<and>
         rate_limit_strikes s' = rate_limit_strikes s + 1 \<and>
         errors s' = errors s + (if 5 \<le> rate_limit_strikes s + 1 then 2 else 1) \<and>
         (rate_limit_strikes s + 1 < 5 \<longrightarrow>
            cooldown_until s' = max (cooldown_until s) (now + of_int (max 1 seconds)) \<and>
            hard_failures s' = hard_failures s \<and>
            blacklist_until s' = blacklist_until s \<and>
            blacklist_reason s' = blacklist_reason s) \<and>
         (5 \<le> rate_limit_strikes s + 1 \<longrightarrow>
            blacklist_reason s' = Some ''rate_limited_persistent'' \<and>
            hard_failures s' = hard_failures s + 1 \<and>
            probation_successes s' = 0 \<and> probation_target s' = 2 \<and>
            blacklist_until s' = max (blacklist_until s)
              (now + of_int (blacklist_ttl (hard_failures s + 1))) \<and>
            next_probe_after s' = blacklist_until s' \<and>
            cooldown_until s' = max (max (cooldown_until s) (now + of_int (max 1 seconds)))
              (blacklist_until s'))))"
proof (intro conjI allI impI)
  show "mark_cooldown p n seconds now = mark_result p n 429 None (Some seconds) now"
    by (simp add: mark_cooldown_def)
next
  fix s assume named: "state_named p n = Some s"
  let ?s' = "mark_rate_limited s now (Some (max 1 seconds))"
  have A: "state_named (mark_cooldown p n seconds now) n = Some ?s'"
    using state_named_mark_result [OF named, of 429 None "Some seconds" now]
    by (simp add: mark_cooldown_def classify_result_429)
  have B: "rate_limit_strikes ?s' = rate_limit_strikes s + 1 \<and>
         errors ?s' = errors s + (if 5 \<le> rate_limit_strikes s + 1 then 2 else 1)"
    by (cases "rate_limit_strikes s + 1 < 5")
      (simp_all add: mark_rate_limited_below_5 mark_rate_limited_from_5 mark_blacklist_fields)
  have C: "rate_limit_strikes s + 1 < 5 \<longrightarrow>
            cooldown_until ?s' = max (cooldown_until s) (now + of_int (max 1 seconds)) \<and>
            hard_failures ?s' = hard_failures s \<and>
            blacklist_until ?s' = blacklist_until s \<and>
            blacklist_reason ?s' = blacklist_reason s"
    by (simp add: mark_rate_limited_below_5)
  have D: "5 \<le> rate_limit_strikes s + 1 \<longrightarrow>
            blacklist_reason ?s' = Some ''rate_limited_persistent'' \<and>
            hard_failures ?s' = hard_failures s + 1 \<and>
            probation_successes ?s' = 0 \<and> probation_target ?s' = 2 \<and>
            blacklist_until ?s' = max (blacklist_until s)
              (now + of_int (blacklist_ttl (hard_failures s + 1))) \<and>
            next_probe_after ?s' = blacklist_until ?s' \<and>
            cooldown_until ?s' = max (max (cooldown_until s) (now + of_int (max 1 seconds)))
              (blacklist_until ?s')"
    by (simp add: mark_rate_limited_from_5 mark_blacklist_fields)
  from B have B1: "rate_limit_strikes ?s' = rate_limit_strikes s + 1"
    and B2: "errors ?s' = errors s + (if 5 \<le> rate_limit_strikes s + 1 then 2 else 1)"
    by blast+
  show "\<exists>s'. state_named (mark_cooldown p n seconds now) n = Some s' \<and>
         rate_limit_strikes s' = rate_limit_strikes s + 1 \<and>
         errors s' = errors s + (if 5 \<le> rate_limit_strikes s + 1 then 2 else 1) \<and>
         (rate_limit_strikes s + 1 < 5 \<longrightarrow>
            cooldown_until s' = max (cooldown_until s) (now + of_int (max 1 seconds)) \<and>
            hard_failures s' = hard_failures s \<and>
            blacklist_until s' = blacklist_until s \<and>
            blacklist_reason s' = blacklist_reason s) \<and>
         (5 \<le> rate_limit_strikes s + 1 \<longrightarrow>
            blacklist_reason s' = Some ''rate_limited_persistent'' \<and>
            hard_failures s' = hard_failures s + 1 \<and>
            probation_successes s' = 0 \<and> probation_target s' = 2 \<and>
            blacklist_until s' = max (blacklist_until s)
              (now + of_int (blacklist_ttl (hard_failures s + 1))) \<and>
            next_probe_after s' = blacklist_until s' \<and>
            cooldown_until s' = max (max (cooldown_until s) (now + of_int (max 1 seconds)))
              (blacklist_until s'))"
    by (intro exI [of _ "?s'"] conjI A B1 B2 C D)
qed

theorem mark_cooldown_is_mark_result_witness:
  "state_named pool_four_strikes ''a.json'' = Some state_four_strikes \<and>
   5 \<le> rate_limit_strikes state_four_strikes + 1 \<and>
   blacklist_reason (the (state_named (mark_cooldown pool_four_strikes ''a.json'' 60 1000) ''a.json''))
     = Some ''rate_limited_persistent'' \<and>
   state_named pool_ab ''a.json'' = Some (AuthState rec_a) \<and>
   rate_limit_strikes (AuthState rec_a) + 1 < 5 \<and>
   cooldown_until (the (state_named (mark_cooldown pool_ab ''a.json'' 60 1000) ''a.json'')) = 1060"
proof -
  have h1: "state_named pool_four_strikes ''a.json'' = Some state_four_strikes" by code_simp
  have h2: "5 \<le> rate_limit_strikes state_four_strikes + 1" by code_simp
  have h3: "state_named pool_ab ''a.json'' = Some (AuthState rec_a)" by code_simp
  have h4: "rate_limit_strikes (AuthState rec_a) + 1 < 5" "cooldown_until (AuthState rec_a) = 0"
    by code_simp+
  from mark_cooldown_is_mark_result [of pool_four_strikes "''a.json''" 60 1000] h1 h2
  have a: "blacklist_reason (the (state_named (mark_cooldown pool_four_strikes ''a.json'' 60 1000) ''a.json''))
     = Some ''rate_limited_persistent''" by auto
  from mark_cooldown_is_mark_result [of pool_ab "''a.json''" 60 1000] h3 h4
  have b: "cooldown_until (the (state_named (mark_cooldown pool_ab ''a.json'' 60 1000) ''a.json'')) = 1060"
    by auto
  from a b h1 h2 h3 h4 show ?thesis by blast
qed

section \<open>Properties of the path rewrite\<close>

lemma rewrite_first_match:
  "table = pre @ (old, new) # post \<Longrightarrow> \<forall>x\<in>set pre. \<not> startswith p (fst x) \<Longrightarrow>
   startswith p old \<Longrightarrow> rewrite_first table p = new @ drop (length old) p"
proof (induction pre arbitrary: table)
  case Nil
  then show ?case by simp
next
  case (Cons x pre)
  obtain a b where x: "x = (a, b)" by (cases x)
  from Cons.prems x have "\<not> startswith p a" by simp
  moreover have "rewrite_first (pre @ (old, new) # post) p = new @ drop (length old) p"
    using Cons.IH [OF refl] Cons.prems by simp
  ultimately show ?case using Cons.prems(1) x by simp
qed

lemma rewrite_first_no_match:
  "\<forall>x\<in>set table. \<not> startswith p (fst x) \<Longrightarrow> rewrite_first table p = p"
  by (induction table) auto

lemma no_pattern_matches_codex:
  "\<forall>x\<in>set PATH_REWRITE_PATTERNS. \<not> startswith (CHR ''/'' # CHR ''c'' # q) (fst x)"
  by (simp add: PATH_REWRITE_PATTERNS_def startswith_def)

lemma rewrite_first_codex:
  "rewrite_first PATH_REWRITE_PATTERNS (CHR ''/'' # CHR ''c'' # q) = CHR ''/'' # CHR ''c'' # q"
  using rewrite_first_no_match [OF no_pattern_matches_codex] .

lemma rewrite_first_result:
  "rewrite_first PATH_REWRITE_PATTERNS p = p \<or>
   (\<exists>q. rewrite_first PATH_REWRITE_PATTERNS p = CHR ''/'' # CHR ''c'' # q)"
  by (simp add: PATH_REWRITE_PATTERNS_def)

lemma rewrite_first_idem:
  "rewrite_first PATH_REWRITE_PATTERNS (rewrite_first PATH_REWRITE_PATTERNS p)
     = rewrite_first PATH_REWRITE_PATTERNS p"
  using rewrite_first_result [of p] by (auto simp: rewrite_first_codex)

lemma startswith_codex:
  "startswith p ''/codex/responses'' \<Longrightarrow> \<exists>q. p = CHR ''/'' # CHR ''c'' # q"
proof -
  assume "startswith p ''/codex/responses''"
  then have "take (length ''/codex/responses'') p = ''/codex/responses''"
    unfolding startswith_def .
  then have "p = ''/codex/responses'' @ drop (length ''/codex/responses'') p"
    by (metis append_take_drop_id)
  then show ?thesis by (metis append_Cons)
qed

text \<open>
  Claim C7, as the code has it. \<open>rewrite_request_path\<close> changes a path only when
  the upstream host in lower case is \<open>chatgpt.com\<close> or \<open>chat.openai.com\<close> and the
  upstream base path without its trailing slashes is \<open>/backend-api\<close>; it then
  applies the first prefix of the table that matches and keeps the suffix. A path
  that matches no prefix, and so every path that starts with \<open>/codex/responses\<close>,
  is returned unchanged, and rewriting twice is rewriting once.
\<close>
theorem rewrite_request_path_idempotent:
  "(rewrite_request_path p host base \<noteq> p \<longrightarrow>
      lower (case host of None \<Rightarrow> [] | Some h \<Rightarrow> h) \<in> CHATGPT_HOSTS \<and>
      rstrip base CHR ''/'' = ''/backend-api'') \<and>
   (lower (case host of None \<Rightarrow> [] | Some h \<Rightarrow> h) \<in> CHATGPT_HOSTS \<and>
    rstrip base CHR ''/'' = ''/backend-api'' \<longrightarrow>
      (\<forall>pre old new post.
          PATH_REWRITE_PATTERNS = pre @ (old, new) # post \<and>
          (\<forall>x\<in>set pre. \<not> startswith p (fst x)) \<and> startswith p old \<longrightarrow>
          rewrite_request_path p host base = new @ drop (length old) p)) \<and>
   ((\<forall>x\<in>set PATH_REWRITE_PATTERNS. \<not> startswith p (fst x)) \<longrightarrow>
      rewrite_request_path p host base = p) \<and>
   (startswith p ''/codex/responses'' \<longrightarrow> rewrite_request_path p host base = p) \<and>
   rewrite_request_path (rewrite_request_path p host base) host base
     = rewrite_request_path p host base"
proof -
  have A: "rewrite_request_path p host base \<noteq> p \<longrightarrow>
      lower (case host of None \<Rightarrow> [] | Some h \<Rightarrow> h) \<in> CHATGPT_HOSTS \<and>
      rstrip base CHR ''/'' = ''/backend-api''"
    by (auto simp: rewrite_request_path_def Let_def)
  have B: "lower (case host of None \<Rightarrow> [] | Some h \<Rightarrow> h) \<in> CHATGPT_HOSTS \<and>
    rstrip base CHR ''/'' = ''/backend-api'' \<longrightarrow>
      (\<forall>pre old new post.
          PATH_REWRITE_PATTERNS = pre @ (old, new) # post \<and>
          (\<forall>x\<in>set pre. \<not> startswith p (fst x)) \<and> startswith p old \<longrightarrow>
          rewrite_request_path p host base = new @ drop (length old) p)"
    using rewrite_first_match [of PATH_REWRITE_PATTERNS _ _ _ _ p]
    by (auto simp: rewrite_request_path_def Let_def)
  have C: "(\<forall>x\<in>set PATH_REWRITE_PATTERNS. \<not> startswith p (fst x)) \<longrightarrow>
      rewrite_request_path p host base = p"
    using rewrite_first_no_match [of PATH_REWRITE_PATTERNS p]
    by (auto simp: rewrite_request_path_def Let_def)
  have D: "startswith p ''/codex/responses'' \<longrightarrow> rewrite_request_path p host base = p"
    using startswith_codex [of p] rewrite_first_codex
    by (auto simp: rewrite_request_path_def Let_def)
  have E: "rewrite_request_path (rewrite_request_path p host base) host base
     = rewrite_request_path p host base"
    by (simp add: rewrite_request_path_def Let_def rewrite_first_idem)
  from A B C D E show ?thesis by (intro conjI)
qed

theorem rewrite_request_path_idempotent_witness:
  "rewrite_request_path ''/v1/responses/compact?x=1'' (Some ''ChatGPT.com'') ''/backend-api/''
     \<noteq> ''/v1/responses/compact?x=1'' \<and>
   lower ''ChatGPT.com'' \<in> CHATGPT_HOSTS \<and> rstrip ''/backend-api/'' CHR ''/'' = ''/backend-api'' \<and>
   startswith ''/v1/responses/compact?x=1'' ''/v1/responses/compact'' \<and>
   rewrite_request_path ''/v1/responses/compact?x=1'' (Some ''ChatGPT.com'') ''/backend-api/''
     = ''/codex/responses/compact?x=1'' \<and>
   startswith ''/codex/responses/compact?x=1'' ''/codex/responses'' \<and>
   rewrite_request_path ''/codex/responses/compact?x=1'' (Some ''ChatGPT.com'') ''/backend-api/''
     = ''/codex/responses/compact?x=1''"
proof -
  have v: "rewrite_request_path ''/v1/responses/compact?x=1'' (Some ''ChatGPT.com'') ''/backend-api/''
     = ''/codex/responses/compact?x=1''"
    "startswith ''/v1/responses/compact?x=1'' ''/v1/responses/compact''"
    "startswith ''/codex/responses/compact?x=1'' ''/codex/responses''"
    by code_simp+
  have ne: "rewrite_request_path ''/v1/responses/compact?x=1'' (Some ''ChatGPT.com'') ''/backend-api/''
     \<noteq> ''/v1/responses/compact?x=1''" unfolding v by simp
  from rewrite_request_path_idempotent
    [of "''/v1/responses/compact?x=1''" "Some ''ChatGPT.com''" "''/backend-api/''"] ne
  have h: "lower ''ChatGPT.com'' \<in> CHATGPT_HOSTS \<and> rstrip ''/backend-api/'' CHR ''/'' = ''/backend-api''"
    by simp
  from rewrite_request_path_idempotent
    [of "''/v1/responses/compact?x=1''" "Some ''ChatGPT.com''" "''/backend-api/''"]
  have "rewrite_request_path
      (rewrite_request_path ''/v1/responses/compact?x=1'' (Some ''ChatGPT.com'') ''/backend-api/'')
      (Some ''ChatGPT.com'') ''/backend-api/''
    = rewrite_request_path ''/v1/responses/compact?x=1'' (Some ''ChatGPT.com'') ''/backend-api/''"
    by blast
  then have "rewrite_request_path ''/codex/responses/compact?x=1'' (Some ''ChatGPT.com'') ''/backend-api/''
     = ''/codex/responses/compact?x=1''" unfolding v .
  with v ne h show ?thesis by blast
qed

text \<open>
  A path is rewritten although the base path is \<open>/backend-api/\<close>, not
  \<open>/backend-api\<close>, and although the host is written \<open>ChatGPT.com\<close>.
\<close>
theorem rewrite_request_path_counterexample:
  "rewrite_request_path ''/responses'' (Some ''chatgpt.com'') ''/backend-api/'' = ''/codex/responses'' \<and>
   ''/backend-api/'' \<noteq> ''/backend-api'' \<and>
   rewrite_request_path ''/responses'' (Some ''ChatGPT.com'') ''/backend-api'' = ''/codex/responses'' \<and>
   ''ChatGPT.com'' \<notin> CHATGPT_HOSTS"
  by (simp add: rewrite_request_path_def lower_def lower_char_def CHATGPT_HOSTS_def rstrip_def
      PATH_REWRITE_PATTERNS_def startswith_def)

section \<open>Properties of the trace ring buffer\<close>

lemma add_Some:
  "event < length (dict_objs h) \<Longrightarrow> items st < length (list_objs h) \<Longrightarrow>
   add st event h =
     Some (length (dict_objs h), st\<lparr>seq := seq st + 1\<rparr>,
           h\<lparr>dict_objs := dict_objs h @ [AList.update ''id'' (PyInt (seq st + 1)) (dict_objs h ! event)],
             list_objs := (list_objs h)[items st :=
               deque_append (max_size st) (list_objs h ! items st) (length (dict_objs h))]\<rparr>)"
  by (simp add: add_def Let_def)

lemma map_of_update_id: "map_of (AList.update k v al) k = Some v"
  by (simp add: update_conv')

lemma add_all_ids:
  "items st < length (list_objs h) \<Longrightarrow> \<forall>i<length evs. evs ! i < length (dict_objs h) + i \<Longrightarrow>
   \<exists>st' h'. add_all st evs h
        = Some ([length (dict_objs h) ..< length (dict_objs h) + length evs], st', h') \<and>
      seq st' = seq st + int (length evs) \<and> items st' = items st \<and>
      length (dict_objs h') = length (dict_objs h) + length evs \<and>
      length (list_objs h') = length (list_objs h) \<and>
      (\<forall>a<length (dict_objs h). dict_objs h' ! a = dict_objs h ! a) \<and>
      (\<forall>i<length evs. map_of (dict_objs h' ! (length (dict_objs h) + i)) ''id''
                         = Some (PyInt (seq st + 1 + int i)))"
proof (induction evs arbitrary: st h)
  case Nil
  then show ?case by simp
next
  case (Cons e evs)
  let ?n = "length (dict_objs h)"
  let ?d = "AList.update ''id'' (PyInt (seq st + 1)) (dict_objs h ! e)"
  let ?st1 = "st\<lparr>seq := seq st + 1\<rparr>"
  let ?h1 = "h\<lparr>dict_objs := dict_objs h @ [?d],
             list_objs := (list_objs h)[items st :=
               deque_append (max_size st) (list_objs h ! items st) ?n]\<rparr>"
  have e: "e < ?n" using Cons.prems(2) by fastforce
  have add1: "add st e h = Some (?n, ?st1, ?h1)"
    using add_Some [OF e Cons.prems(1)] .
  have it1: "items ?st1 < length (list_objs ?h1)" using Cons.prems(1) by simp
  have ev1: "\<forall>i<length evs. evs ! i < length (dict_objs ?h1) + i"
  proof (intro allI impI)
    fix i assume "i < length evs"
    then have "(e # evs) ! Suc i < ?n + Suc i" using Cons.prems(2) by fastforce
    then show "evs ! i < length (dict_objs ?h1) + i" by simp
  qed
  from Cons.IH [OF it1 ev1] obtain st2 h2 where
    run: "add_all ?st1 evs ?h1 = Some ([Suc ?n ..< Suc ?n + length evs], st2, h2)"
    and sq: "seq st2 = seq st + 1 + int (length evs)"
    and it: "items st2 = items st"
    and ld: "length (dict_objs h2) = Suc ?n + length evs"
    and ll: "length (list_objs h2) = length (list_objs h)"
    and fr: "\<forall>a<Suc ?n. dict_objs h2 ! a = dict_objs ?h1 ! a"
    and ids: "\<forall>i<length evs. map_of (dict_objs h2 ! (Suc ?n + i)) ''id''
                = Some (PyInt (seq st + 1 + 1 + int i))"
    by auto
  have r: "add_all st (e # evs) h = Some (?n # [Suc ?n ..< Suc ?n + length evs], st2, h2)"
    using add1 run by simp
  have upt: "?n # [Suc ?n ..< Suc ?n + length evs] = [?n ..< ?n + length (e # evs)]"
    using upt_conv_Cons [of ?n "?n + length (e # evs)"] by simp
  have fr0: "\<forall>a<?n. dict_objs h2 ! a = dict_objs h ! a"
    using fr by (simp add: nth_append)
  have id0: "map_of (dict_objs h2 ! ?n) ''id'' = Some (PyInt (seq st + 1))"
    using fr by (simp add: map_of_update_id)
  have ids': "\<forall>i<length (e # evs). map_of (dict_objs h2 ! (?n + i)) ''id''
                = Some (PyInt (seq st + 1 + int i))"
  proof (intro allI impI)
    fix i assume i: "i < length (e # evs)"
    show "map_of (dict_objs h2 ! (?n + i)) ''id'' = Some (PyInt (seq st + 1 + int i))"
    proof (cases i)
      case 0
      then show ?thesis using id0 by simp
    next
      case (Suc j)
      then have "j < length evs" using i by simp
      with ids have "map_of (dict_objs h2 ! (Suc ?n + j)) ''id''
                = Some (PyInt (seq st + 1 + 1 + int j))" by blast
      then show ?thesis using Suc by (simp add: add.commute add.left_commute)
    qed
  qed
  show ?case
    apply (rule exI [of _ st2], rule exI [of _ h2])
    using r upt sq it ld ll fr0 ids' by simp
qed

lemma TraceStore_fields:
  "TraceStore m h0 = (st, h) \<Longrightarrow>
   seq st = 0 \<and> max_size st = max 1 m \<and> items st = length (list_objs h0) \<and>
   dict_objs h = dict_objs h0 \<and> list_objs h = list_objs h0 @ [[]]"
  by (auto simp: TraceStore_def)

text \<open>
  Claim C6. For a new store of any capacity and any run of \<open>add\<close> calls on live
  dictionaries, every call succeeds and the payloads carry the ids 1, 2, 3, \<dots>
  in call order, one distinct payload per call, whatever has been evicted.
\<close>
theorem trace_ids_sequential:
  assumes new: "TraceStore m h0 = (st, h)"
    and live: "\<forall>i<length evs. evs ! i < length (dict_objs h0) + i"
  shows "\<exists>payloads st' h'. add_all st evs h = Some (payloads, st', h') \<and>
           length payloads = length evs \<and> distinct payloads \<and>
           map (\<lambda>a. dict_get h' a ''id'') payloads
             = map (\<lambda>i. Some (PyInt (int i))) [1 ..< Suc (length evs)]"
proof -
  from TraceStore_fields [OF new] have f: "seq st = 0" "items st < length (list_objs h)"
    "dict_objs h = dict_objs h0" by simp_all
  let ?n = "length (dict_objs h)"
  from add_all_ids [OF f(2), of evs] live f(3) obtain st' h' where
    run: "add_all st evs h = Some ([?n ..< ?n + length evs], st', h')"
    and ids: "\<forall>i<length evs. map_of (dict_objs h' ! (?n + i)) ''id''
                = Some (PyInt (seq st + 1 + int i))"
    by auto
  have len: "length [?n ..< ?n + length evs] = length evs" by simp
  have dist: "distinct [?n ..< ?n + length evs]" by simp
  have "map (\<lambda>a. dict_get h' a ''id'') [?n ..< ?n + length evs]
             = map (\<lambda>i. Some (PyInt (int i))) [1 ..< Suc (length evs)]"
  proof (rule nth_equalityI)
    show "length (map (\<lambda>a. dict_get h' a ''id'') [?n ..< ?n + length evs])
        = length (map (\<lambda>i. Some (PyInt (int i))) [1 ..< Suc (length evs)])"
      by (simp del: upt_Suc)
  next
    fix i assume "i < length (map (\<lambda>a. dict_get h' a ''id'') [?n ..< ?n + length evs])"
    then have i: "i < length evs" by simp
    then show "map (\<lambda>a. dict_get h' a ''id'') [?n ..< ?n + length evs] ! i
        = map (\<lambda>i. Some (PyInt (int i))) [1 ..< Suc (length evs)] ! i"
      using ids f(1) by (simp add: dict_get_def add.commute del: upt_Suc)
  qed
  with run len dist show ?thesis by blast
qed

theorem trace_ids_sequential_witness:
  "TraceStore 2 heap_three = (fst (TraceStore 2 heap_three), snd (TraceStore 2 heap_three)) \<and>
   (case add_all (fst (TraceStore 2 heap_three)) [0, 1, 2] (snd (TraceStore 2 heap_three)) of
      None \<Rightarrow> False
    | Some (payloads, st', h') \<Rightarrow>
        map (\<lambda>a. dict_get h' a ''id'') payloads = [Some (PyInt 1), Some (PyInt 2), Some (PyInt 3)] \<and>
        map (\<lambda>a. dict_get h' a ''id'') (buffer st' h') = [Some (PyInt 2), Some (PyInt 3)])"
proof -
  have h1: "TraceStore 2 heap_three = (fst (TraceStore 2 heap_three), snd (TraceStore 2 heap_three))"
    by simp
  have h2: "\<forall>i<length [0::nat, 1, 2]. [0::nat, 1, 2] ! i < length (dict_objs heap_three) + i"
    by (simp add: heap_three_def less_Suc_eq)
  have v: "case add_all (fst (TraceStore 2 heap_three)) [0, 1, 2] (snd (TraceStore 2 heap_three)) of
      None \<Rightarrow> False
    | Some (payloads, st', h') \<Rightarrow>
        map (\<lambda>a. dict_get h' a ''id'') (buffer st' h') = [Some (PyInt 2), Some (PyInt 3)]"
    by code_simp
  from trace_ids_sequential [OF h1 h2] obtain payloads st' h' where
    "add_all (fst (TraceStore 2 heap_three)) [0, 1, 2] (snd (TraceStore 2 heap_three))
       = Some (payloads, st', h')"
    "map (\<lambda>a. dict_get h' a ''id'') payloads
       = map (\<lambda>i. Some (PyInt (int i))) [1 ..< Suc (length [0::nat, 1, 2])]"
    by blast
  with v h1 show ?thesis by (simp add: upt_rec)
qed

lemma list_events_Some:
  "items st < length (list_objs h) \<Longrightarrow>
   list_events st limit h =
     (if limit > 0
      then Some (Suc (length (list_objs h)),
                 h\<lparr>list_objs := list_objs h @ [list_objs h ! items st,
                      drop (length (list_objs h ! items st) - nat limit) (list_objs h ! items st)]\<rparr>)
      else Some (length (list_objs h),
                 h\<lparr>list_objs := list_objs h @ [list_objs h ! items st]\<rparr>))"
  by (simp add: list_events_def Let_def)

text \<open>
  Claim C10. \<open>add(event)\<close> puts the payload into a new dictionary object: the
  caller's dictionary, like every older dictionary, is unchanged (it gains no
  \<open>id\<close> key); the payload is the caller's dictionary with \<open>id\<close> set, it is the
  object returned and the newest item of the buffer. \<open>list(limit)\<close> returns a new
  list object, and no assignment to that list changes the buffer or a dictionary.
\<close>
theorem add_copies_event:
  assumes ev: "event < length (dict_objs h)"
    and it: "items st < length (list_objs h)"
    and cap: "1 \<le> max_size st"
  shows "\<exists>payload st' h'. add st event h = Some (payload, st', h') \<and>
           payload \<noteq> event \<and> payload = length (dict_objs h) \<and>
           (\<forall>a<length (dict_objs h). dict_objs h' ! a = dict_objs h ! a) \<and>
           dict_get h' event ''id'' = dict_get h event ''id'' \<and>
           dict_objs h' ! payload
             = AList.update ''id'' (PyInt (seq st + 1)) (dict_objs h ! event) \<and>
           dict_get h' payload ''id'' = Some (PyInt (seq st + 1)) \<and>
           last (buffer st' h') = payload \<and>
           (\<forall>limit. \<exists>result h''. list_events st' limit h' = Some (result, h'') \<and>
              result \<noteq> items st' \<and> length (list_objs h') \<le> result \<and>
              list_objs h'' ! result
                = (if limit > 0
                   then drop (length (buffer st' h') - nat limit) (buffer st' h')
                   else buffer st' h') \<and>
              buffer st' h'' = buffer st' h' \<and> dict_objs h'' = dict_objs h' \<and>
              (\<forall>xs. buffer st' (list_assign h'' result xs) = buffer st' h'' \<and>
                    dict_objs (list_assign h'' result xs) = dict_objs h''))"
proof -
  let ?n = "length (dict_objs h)"
  let ?d = "AList.update ''id'' (PyInt (seq st + 1)) (dict_objs h ! event)"
  let ?st' = "st\<lparr>seq := seq st + 1\<rparr>"
  let ?q = "deque_append (max_size st) (list_objs h ! items st) ?n"
  let ?h' = "h\<lparr>dict_objs := dict_objs h @ [?d], list_objs := (list_objs h)[items st := ?q]\<rparr>"
  have A: "add st event h = Some (?n, ?st', ?h')" using add_Some [OF ev it] .
  have B: "?n \<noteq> event" using ev by simp
  have C: "\<forall>a<?n. dict_objs ?h' ! a = dict_objs h ! a" by (simp add: nth_append)
  have D: "dict_get ?h' event ''id'' = dict_get h event ''id''"
    using ev by (simp add: dict_get_def nth_append)
  have E: "dict_objs ?h' ! ?n = ?d" by simp
  have F: "dict_get ?h' ?n ''id'' = Some (PyInt (seq st + 1))"
    by (simp add: dict_get_def map_of_update_id)
  have buf: "buffer ?st' ?h' = ?q" using it by (simp add: buffer_def)
  have G: "last (buffer ?st' ?h') = ?n"
    unfolding buf using cap
    by (cases "list_objs h ! items st") (simp_all add: deque_append_def Let_def)
  have it': "items ?st' < length (list_objs ?h')" using it by simp
  have H: "\<exists>result h''. list_events ?st' limit ?h' = Some (result, h'') \<and>
              result \<noteq> items ?st' \<and> length (list_objs ?h') \<le> result \<and>
              list_objs h'' ! result
                = (if limit > 0
                   then drop (length (buffer ?st' ?h') - nat limit) (buffer ?st' ?h')
                   else buffer ?st' ?h') \<and>
              buffer ?st' h'' = buffer ?st' ?h' \<and> dict_objs h'' = dict_objs ?h' \<and>
              (\<forall>xs. buffer ?st' (list_assign h'' result xs) = buffer ?st' h'' \<and>
                    dict_objs (list_assign h'' result xs) = dict_objs h'')" for limit
  proof (cases "limit > 0")
    case True
    let ?h2 = "?h'\<lparr>list_objs := list_objs ?h' @ [list_objs ?h' ! items ?st',
                      drop (length (list_objs ?h' ! items ?st') - nat limit)
                        (list_objs ?h' ! items ?st')]\<rparr>"
    have le: "list_events ?st' limit ?h' = Some (Suc (length (list_objs ?h')), ?h2)"
      using list_events_Some [OF it', of limit] True by simp
    show ?thesis
      apply (rule exI [of _ "Suc (length (list_objs ?h'))"], rule exI [of _ ?h2])
      using it True le by (simp add: buffer_def list_assign_def nth_append)
  next
    case False
    let ?h2 = "?h'\<lparr>list_objs := list_objs ?h' @ [list_objs ?h' ! items ?st']\<rparr>"
    have le: "list_events ?st' limit ?h' = Some (length (list_objs ?h'), ?h2)"
      using list_events_Some [OF it', of limit] False by simp
    show ?thesis
      apply (rule exI [of _ "length (list_objs ?h')"], rule exI [of _ ?h2])
      using it False le by (simp add: buffer_def list_assign_def nth_append)
  qed
  show ?thesis
    apply (rule exI [of _ ?n], rule exI [of _ ?st'], rule exI [of _ ?h'])
    using A B C D E F G H by blast
qed


theorem add_copies_event_witness:
  "(0::nat) < length (dict_objs (snd (TraceStore 2 heap_three))) \<and>
   items (fst (TraceStore 2 heap_three)) < length (list_objs (snd (TraceStore 2 heap_three))) \<and>
   1 \<le> max_size (fst (TraceStore 2 heap_three)) \<and>
   dict_get heap_three 0 ''id'' = None \<and>
   (case add (fst (TraceStore 2 heap_three)) 0 (snd (TraceStore 2 heap_three)) of
      None \<Rightarrow> False
    | Some (payload, st', h') \<Rightarrow>
        payload = 3 \<and> dict_get h' 0 ''id'' = None \<and> dict_get h' payload ''id'' = Some (PyInt 1) \<and>
        buffer st' h' = [payload])"
proof -
  have h1: "(0::nat) < length (dict_objs (snd (TraceStore 2 heap_three)))" by code_simp
  have h2: "items (fst (TraceStore 2 heap_three)) < length (list_objs (snd (TraceStore 2 heap_three)))"
    by code_simp
  have h3: "1 \<le> max_size (fst (TraceStore 2 heap_three))" by code_simp
  have v: "dict_get heap_three 0 ''id'' = None"
    "dict_get (snd (TraceStore 2 heap_three)) 0 ''id'' = None"
    "seq (fst (TraceStore 2 heap_three)) = 0"
    "length (dict_objs (snd (TraceStore 2 heap_three))) = 3"
    "case add (fst (TraceStore 2 heap_three)) 0 (snd (TraceStore 2 heap_three)) of
      None \<Rightarrow> False | Some (payload, st', h') \<Rightarrow> buffer st' h' = [payload]"
    by code_simp+
  from add_copies_event [OF h1 h2 h3] obtain payload st' h' where
    "add (fst (TraceStore 2 heap_three)) 0 (snd (TraceStore 2 heap_three)) = Some (payload, st', h')"
    "payload = length (dict_objs (snd (TraceStore 2 heap_three)))"
    "dict_get h' 0 ''id'' = dict_get (snd (TraceStore 2 heap_three)) 0 ''id''"
    "dict_get h' payload ''id'' = Some (PyInt (seq (fst (TraceStore 2 heap_three)) + 1))"
    by blast
  with v h1 h2 h3 show ?thesis by simp
qed

end
